theory Spec2Isabelle
  imports Main "HOL-Library.Sublist"
begin

section \<open>Text and character classes\<close>

text \<open>
  A snippet is a Python \<^verbatim>\<open>str\<close>. It is modelled as a \<^typ>\<open>string\<close>, so a character is a code
  point below 256. On that range the classes below are the ones of Python 3: \<open>is_space\<close> is
  \<^verbatim>\<open>str.isspace\<close> and the class \<^verbatim>\<open>\s\<close> of \<^verbatim>\<open>re\<close>, \<open>is_word\<close> is \<^verbatim>\<open>\w\<close>, \<open>is_digit\<close> is
  \<^verbatim>\<open>\d\<close>, \<open>is_linebreak\<close> is the set of line boundaries of \<^verbatim>\<open>str.splitlines\<close>, and \<open>lower\<close> is
  the simple lower-case mapping that \<^verbatim>\<open>re.IGNORECASE\<close> compares characters with.
\<close>

definition cp :: "char \<Rightarrow> nat" where
  "cp c = of_char c"

definition is_space :: "char \<Rightarrow> bool" where
  "is_space c \<longleftrightarrow> (9 \<le> cp c \<and> cp c \<le> 13) \<or> (28 \<le> cp c \<and> cp c \<le> 32)
     \<or> cp c = 133 \<or> cp c = 160"

definition is_linebreak :: "char \<Rightarrow> bool" where
  "is_linebreak c \<longleftrightarrow> (10 \<le> cp c \<and> cp c \<le> 13) \<or> (28 \<le> cp c \<and> cp c \<le> 30)
     \<or> cp c = 133"

definition is_digit :: "char \<Rightarrow> bool" where
  "is_digit c \<longleftrightarrow> 48 \<le> cp c \<and> cp c \<le> 57"

definition is_upper :: "char \<Rightarrow> bool" where
  "is_upper c \<longleftrightarrow> (65 \<le> cp c \<and> cp c \<le> 90) \<or> (192 \<le> cp c \<and> cp c \<le> 214)
     \<or> (216 \<le> cp c \<and> cp c \<le> 222)"

definition is_word :: "char \<Rightarrow> bool" where
  "is_word c \<longleftrightarrow> is_digit c \<or> (65 \<le> cp c \<and> cp c \<le> 90) \<or> cp c = 95
     \<or> (97 \<le> cp c \<and> cp c \<le> 122)
     \<or> cp c = 170 \<or> cp c = 178 \<or> cp c = 179 \<or> cp c = 181 \<or> cp c = 185
     \<or> cp c = 186 \<or> (188 \<le> cp c \<and> cp c \<le> 190)
     \<or> (192 \<le> cp c \<and> cp c \<le> 214) \<or> (216 \<le> cp c \<and> cp c \<le> 246)
     \<or> 248 \<le> cp c"

definition lower :: "char \<Rightarrow> char" where
  "lower c = (if is_upper c then char_of (cp c + 32) else c)"

section \<open>Regular expressions as \<^verbatim>\<open>re\<close> evaluates them\<close>

text \<open>
  The source works through \<^verbatim>\<open>re.search\<close>, \<^verbatim>\<open>re.sub\<close>, \<^verbatim>\<open>re.findall\<close> and \<^verbatim>\<open>re.finditer\<close>. The
  patterns are kept as syntax trees; \<open>pm\<close> is the backtracking matcher. A position is the
  character before the cursor (for \<^verbatim>\<open>\b\<close> and \<^verbatim>\<open>^\<close>) and the text after it. \<open>pm\<close> returns the
  positions where a match that starts at the given position can end, in the order in which
  backtracking tries them, so the head of the list is the match Python reports.
\<close>

record flags =
  ignorecase :: bool
  multiline :: bool
  dotall :: bool

definition NOFLAGS :: flags where
  "NOFLAGS = \<lparr>ignorecase = False, multiline = False, dotall = False\<rparr>"

definition IGNORECASE :: flags where
  "IGNORECASE = \<lparr>ignorecase = True, multiline = False, dotall = False\<rparr>"

definition MULTILINE :: flags where
  "MULTILINE = \<lparr>ignorecase = False, multiline = True, dotall = False\<rparr>"

definition DOTALL :: flags where
  "DOTALL = \<lparr>ignorecase = False, multiline = False, dotall = True\<rparr>"

datatype item = Ch char | Rng char char | Space | Word | Digit

datatype regex =
    Eps
  | Lit char
  | Dot
  | In "item list"
  | NotIn "item list"
  | Cat regex regex
  | Alt regex regex
  | Rep bool nat "nat option" regex
  | WordB
  | LineStart

type_synonym pos = "char option \<times> string"

fun item_ok :: "item \<Rightarrow> char \<Rightarrow> bool" where
  "item_ok (Ch c) x = (x = c)"
| "item_ok (Rng a b) x = (cp a \<le> cp x \<and> cp x \<le> cp b)"
| "item_ok Space x = is_space x"
| "item_ok Word x = is_word x"
| "item_ok Digit x = is_digit x"

text \<open>
  Under \<^verbatim>\<open>IGNORECASE\<close> the compiler lower-cases the members of a set and the matcher looks the
  lower-cased input character up in it.
\<close>

fun item_ok_ci :: "item \<Rightarrow> char \<Rightarrow> bool" where
  "item_ok_ci (Ch c) x = (lower x = lower c)"
| "item_ok_ci (Rng a b) x =
     list_ex (\<lambda>n. lower (char_of n) = lower x) [cp a ..< Suc (cp b)]"
| "item_ok_ci Space x = is_space x"
| "item_ok_ci Word x = is_word x"
| "item_ok_ci Digit x = is_digit x"

definition in_set :: "flags \<Rightarrow> item list \<Rightarrow> char \<Rightarrow> bool" where
  "in_set fl its x =
     (if ignorecase fl then list_ex (\<lambda>it. item_ok_ci it x) its
      else list_ex (\<lambda>it. item_ok it x) its)"

definition lit_ok :: "flags \<Rightarrow> char \<Rightarrow> char \<Rightarrow> bool" where
  "lit_ok fl c x = (if ignorecase fl then lower x = lower c else x = c)"

definition dot_ok :: "flags \<Rightarrow> char \<Rightarrow> bool" where
  "dot_ok fl x = (dotall fl \<or> x \<noteq> CHR 0x0A)"

fun step :: "(char \<Rightarrow> bool) \<Rightarrow> pos \<Rightarrow> pos list" where
  "step P (pv, []) = []"
| "step P (pv, x # xs) = (if P x then [(Some x, xs)] else [])"

fun word_before :: "pos \<Rightarrow> bool" where
  "word_before (None, xs) = False"
| "word_before (Some c, xs) = is_word c"

fun word_after :: "pos \<Rightarrow> bool" where
  "word_after (pv, []) = False"
| "word_after (pv, x # xs) = is_word x"

fun at_line_start :: "flags \<Rightarrow> pos \<Rightarrow> bool" where
  "at_line_start fl (None, xs) = True"
| "at_line_start fl (Some c, xs) = (multiline fl \<and> c = CHR 0x0A)"

fun dec :: "nat option \<Rightarrow> nat option" where
  "dec None = None"
| "dec (Some h) = Some (h - 1)"

text \<open>
  \<open>rep f greedy lo hi\<close> is the repeat \<^verbatim>\<open>{lo,hi}\<close> of a body whose matcher is \<open>f\<close>: greedy tries one
  more round before stopping, lazy (\<^verbatim>\<open>*?\<close>) stops first. An optional round that consumes
  nothing is not repeated.
\<close>

function rep :: "(pos \<Rightarrow> pos list) \<Rightarrow> bool \<Rightarrow> nat \<Rightarrow> nat option \<Rightarrow> pos \<Rightarrow> pos list" where
  "rep f greedy lo hi p =
     (if hi = Some 0 then [p]
      else if 0 < lo then
        concat (map (rep f greedy (lo - 1) (dec hi))
                    (filter (\<lambda>q. length (snd q) \<le> length (snd p)) (f p)))
      else if greedy then
        concat (map (rep f greedy 0 (dec hi))
                    (filter (\<lambda>q. length (snd q) < length (snd p)) (f p))) @ [p]
      else
        p # concat (map (rep f greedy 0 (dec hi))
                        (filter (\<lambda>q. length (snd q) < length (snd p)) (f p))))"
  by pat_completeness auto
termination
  by (relation "measure (\<lambda>(f, greedy, lo, hi, p). lo + length (snd p))") auto

declare rep.simps [simp del]

primrec pm :: "flags \<Rightarrow> regex \<Rightarrow> pos \<Rightarrow> pos list" where
  "pm fl Eps p = [p]"
| "pm fl (Lit c) p = step (lit_ok fl c) p"
| "pm fl Dot p = step (dot_ok fl) p"
| "pm fl (In its) p = step (in_set fl its) p"
| "pm fl (NotIn its) p = step (\<lambda>x. \<not> in_set fl its x) p"
| "pm fl (Cat r1 r2) p = concat (map (pm fl r2) (pm fl r1 p))"
| "pm fl (Alt r1 r2) p = pm fl r1 p @ pm fl r2 p"
| "pm fl (Rep greedy lo hi r) p = rep (pm fl r) greedy lo hi p"
| "pm fl WordB p = (if word_before p \<noteq> word_after p then [p] else [])"
| "pm fl LineStart p = (if at_line_start fl p then [p] else [])"

text \<open>Pattern syntax: \<^verbatim>\<open>abc\<close>, \<^verbatim>\<open>r*\<close>, \<^verbatim>\<open>r+\<close>, \<^verbatim>\<open>r?\<close>, \<^verbatim>\<open>r*?\<close>, \<^verbatim>\<open>\s\<close>, \<^verbatim>\<open>\w\<close>, \<^verbatim>\<open>\d\<close>, and sequences.\<close>

definition seq :: "regex list \<Rightarrow> regex" where
  "seq rs = foldr Cat rs Eps"

definition str :: "string \<Rightarrow> regex" where
  "str s = seq (map Lit s)"

fun alts :: "regex list \<Rightarrow> regex" where
  "alts [] = Eps"
| "alts [r] = r"
| "alts (r # rs) = Alt r (alts rs)"

definition star :: "regex \<Rightarrow> regex" where
  "star r = Rep True 0 None r"

definition plus :: "regex \<Rightarrow> regex" where
  "plus r = Rep True 1 None r"

definition opt :: "regex \<Rightarrow> regex" where
  "opt r = Rep True 0 (Some 1) r"

definition lazy_star :: "regex \<Rightarrow> regex" where
  "lazy_star r = Rep False 0 None r"

definition ws :: regex where
  "ws = In [Space]"

definition wd :: regex where
  "wd = In [Word]"

definition dg :: regex where
  "dg = In [Digit]"

text \<open>\<^verbatim>\<open>pattern.search(code)\<close> used as a truth value: some position of the text starts a match.\<close>

fun search_from :: "flags \<Rightarrow> regex \<Rightarrow> char option \<Rightarrow> string \<Rightarrow> bool" where
  "search_from fl r pv [] = (pm fl r (pv, []) \<noteq> [])"
| "search_from fl r pv (x # xs) = (pm fl r (pv, x # xs) \<noteq> [] \<or> search_from fl r (Some x) xs)"

definition search :: "flags \<Rightarrow> regex \<Rightarrow> string \<Rightarrow> bool" where
  "search fl r s = search_from fl r None s"


text \<open>
  \<^verbatim>\<open>re.sub\<close>, \<^verbatim>\<open>re.findall\<close> and \<^verbatim>\<open>re.finditer\<close> walk the text from left to right. At each
  position the first result of the matcher is the match; after a match the walk goes on
  where it ended; where nothing matches, one character is passed over. After an empty
  match the next one may not be empty at the same place (\<open>adv\<close>). A matcher returns, for
  each way to match, a value (the text of group 1, or nothing) and the end position.
\<close>

type_synonym 'a matcher = "pos \<Rightarrow> ('a \<times> pos) list"

datatype 'a piece = Hit 'a string | Skip char

function scan :: "'a matcher \<Rightarrow> bool \<Rightarrow> pos \<Rightarrow> 'a piece list" where
  "scan m adv (pv, xs) =
     (case find (\<lambda>(a, q). \<not> adv \<or> length (snd q) < length xs) (m (pv, xs)) of
        Some (a, q) \<Rightarrow>
          (if length (snd q) < length xs
           then Hit a (take (length xs - length (snd q)) xs) # scan m False q
           else Hit a [] # scan m True (pv, xs))
      | None \<Rightarrow> (case xs of [] \<Rightarrow> [] | x # xs' \<Rightarrow> Skip x # scan m False (Some x, xs')))"
  by pat_completeness auto
termination
  apply (relation "measure (\<lambda>(m, adv, p). 2 * length (snd p) + (if adv then 0 else 1))")
     apply (auto simp: find_Some_iff)
  done

declare scan.simps [simp del]

definition re :: "flags \<Rightarrow> regex \<Rightarrow> unit matcher" where
  "re fl r p = map (Pair ()) (pm fl r p)"

text \<open>A pattern \<^verbatim>\<open>pre(grp)post\<close> with one capturing group: the value is the text of the group.\<close>

definition between :: "pos \<Rightarrow> pos \<Rightarrow> string" where
  "between p q = take (length (snd p) - length (snd q)) (snd p)"

definition re_group :: "flags \<Rightarrow> regex \<Rightarrow> regex \<Rightarrow> regex \<Rightarrow> string matcher" where
  "re_group fl pre grp post p =
     concat (map (\<lambda>q. concat (map (\<lambda>e. map (Pair (between q e)) (pm fl post e)) (pm fl grp q)))
                 (pm fl pre p))"

fun sub_piece :: "string \<Rightarrow> 'a piece \<Rightarrow> string" where
  "sub_piece repl (Hit a t) = repl"
| "sub_piece repl (Skip c) = [c]"

fun hits :: "'a piece list \<Rightarrow> ('a \<times> string) list" where
  "hits [] = []"
| "hits (Hit a t # ps) = (a, t) # hits ps"
| "hits (Skip c # ps) = hits ps"

definition re_sub :: "flags \<Rightarrow> regex \<Rightarrow> string \<Rightarrow> string \<Rightarrow> string" where
  "re_sub fl r repl s = concat (map (sub_piece repl) (scan (re fl r) False (None, s)))"

definition re_findall :: "flags \<Rightarrow> regex \<Rightarrow> string \<Rightarrow> string list" where
  "re_findall fl r s = map snd (hits (scan (re fl r) False (None, s)))"

definition finditer_group1 :: "flags \<Rightarrow> regex \<Rightarrow> regex \<Rightarrow> regex \<Rightarrow> string \<Rightarrow> string list" where
  "finditer_group1 fl pre grp post s = map fst (hits (scan (re_group fl pre grp post) False (None, s)))"

section \<open>The rule engine (\<^verbatim>\<open>baselines/rule_based.py\<close>)\<close>

text \<open>
  The table \<^verbatim>\<open>_RULES\<close>: each rule is a name and a compiled pattern, here the flags and the
  pattern. The first nine are compiled with \<^verbatim>\<open>re.IGNORECASE\<close>, the tenth with no flag.
\<close>

definition dq :: char where
  "dq = CHR 0x22"

definition ecb_mode :: regex where
  "ecb_mode = seq [str ''Cipher.getInstance'', star ws, str ''('', star ws, Lit dq,
     star (NotIn [Ch dq]), str ''ECB'', star (NotIn [Ch dq]), Lit dq]"

definition md5_hash :: regex where
  "md5_hash = seq [str ''MessageDigest.getInstance'', star ws, str ''('', star ws, Lit dq,
     str ''MD5'', Lit dq, star ws, str '')'']"

definition sha1_hash :: regex where
  "sha1_hash = seq [str ''MessageDigest.getInstance'', star ws, str ''('', star ws, Lit dq,
     str ''SHA'', opt (Lit CHR ''-''), str ''1'', Lit dq, star ws, str '')'']"

definition hardcoded_key :: regex where
  "hardcoded_key = seq [str ''new'', plus ws, str ''SecretKeySpec'', star ws, str ''('', star ws,
     str ''new'', plus ws, str ''byte'', star ws, str ''['', star ws, str '']'', star ws, str ''{'']"

definition hardcoded_key_string :: regex where
  "hardcoded_key_string = seq [str ''new'', plus ws, str ''SecretKeySpec'', star ws, str ''('',
     star ws, Lit dq, plus (NotIn [Ch dq]), Lit dq, str ''.getBytes'']"

definition static_iv :: regex where
  "static_iv = seq [str ''new'', plus ws, str ''IvParameterSpec'', star ws, str ''('', star ws,
     str ''new'', plus ws, str ''byte'', star ws, str ''['', star ws, str '']'', star ws, str ''{'']"

definition insecure_random :: regex where
  "insecure_random = seq [str ''new'', plus ws, str ''Random'', star ws, str ''('']"

definition des_usage :: regex where
  "des_usage = seq [str ''Cipher.getInstance'', star ws, str ''('', star ws, Lit dq,
     str ''DES'', NotIn [Ch CHR ''e'']]"

definition no_padding :: regex where
  "no_padding = seq [str ''Cipher.getInstance'', star ws, str ''('', star ws, Lit dq,
     star (NotIn [Ch dq]), str ''NoPadding'', star (NotIn [Ch dq]), Lit dq]"

definition low_pbe_iterations :: regex where
  "low_pbe_iterations = seq [str ''PBEKeySpec'', star ws, str ''('', star (NotIn [Ch CHR '')'']),
     str '','', star ws, In [Rng CHR ''1'' CHR ''9''], Rep True 0 (Some 2) dg, star ws,
     In [Ch CHR '','', Ch CHR '')'']]"

definition RULES :: "(string \<times> flags \<times> regex) list" where
  "RULES =
    [(''ecb_mode'', IGNORECASE, ecb_mode),
     (''md5_hash'', IGNORECASE, md5_hash),
     (''sha1_hash'', IGNORECASE, sha1_hash),
     (''hardcoded_key'', IGNORECASE, hardcoded_key),
     (''hardcoded_key_string'', IGNORECASE, hardcoded_key_string),
     (''static_iv'', IGNORECASE, static_iv),
     (''insecure_random'', IGNORECASE, insecure_random),
     (''des_usage'', IGNORECASE, des_usage),
     (''no_padding'', IGNORECASE, no_padding),
     (''low_pbe_iterations'', NOFLAGS, low_pbe_iterations)]"

text \<open>
  Python values that the results hold: a string, a list of strings, and the dictionary of the
  three structural counts. A \<^verbatim>\<open>dict\<close> is an association list in insertion order, read with
  \<^const>\<open>map_of\<close>.
\<close>

datatype pyval = Str string | StrList "string list" | Counts "(string \<times> nat) list"

text \<open>\<^verbatim>\<open>predict\<close>: the loop over the rules returns at the first pattern that matches.\<close>

fun predict_loop :: "(string \<times> flags \<times> regex) list \<Rightarrow> string \<Rightarrow> string" where
  "predict_loop [] code = ''secure''"
| "predict_loop ((rule_name, fl, pattern) # rules) code =
     (if search fl pattern code then ''insecure'' else predict_loop rules code)"

definition predict :: "string \<Rightarrow> string" where
  "predict code = predict_loop RULES code"

definition predict_batch :: "string list \<Rightarrow> string list" where
  "predict_batch snippets = map predict snippets"

text \<open>\<^verbatim>\<open>predict_detailed\<close>: the loop visits every rule and appends the names that match.\<close>

fun triggered_loop :: "(string \<times> flags \<times> regex) list \<Rightarrow> string \<Rightarrow> string list \<Rightarrow> string list" where
  "triggered_loop [] code triggered = triggered"
| "triggered_loop ((rule_name, fl, pattern) # rules) code triggered =
     triggered_loop rules code
       (if search fl pattern code then triggered @ [rule_name] else triggered)"

definition predict_detailed :: "string \<Rightarrow> (string \<times> pyval) list" where
  "predict_detailed code =
     (let triggered = triggered_loop RULES code []
      in [(''label'', Str (if triggered \<noteq> [] then ''insecure'' else ''secure'')),
          (''triggered_rules'', StrList triggered)])"


section \<open>The normalizer (\<^verbatim>\<open>preprocessing/normalizer.py\<close>)\<close>

definition block_comment :: regex where
  "block_comment = seq [str ''/*'', lazy_star Dot, str ''*/'']"

definition line_comment :: regex where
  "line_comment = seq [str ''//'', star (NotIn [Ch CHR 0x0A])]"

text \<open>\<^verbatim>\<open>_remove_comments\<close>: block comments first (with \<^verbatim>\<open>re.DOTALL\<close>), then line comments.\<close>

definition remove_comments :: "string \<Rightarrow> string" where
  "remove_comments code = re_sub NOFLAGS line_comment [] (re_sub DOTALL block_comment [] code)"

text \<open>
  \<^verbatim>\<open>str.splitlines\<close>: the text is cut at every line boundary, \<^verbatim>\<open>\r\n\<close> counting as one, and a
  boundary at the very end opens no further line. \<open>cur\<close> is the line read so far.
\<close>

fun splitlines_from :: "string \<Rightarrow> string \<Rightarrow> string list" where
  "splitlines_from cur [] = (if cur = [] then [] else [cur])"
| "splitlines_from cur (x # xs) =
     (if is_linebreak x
      then cur # splitlines_from []
             (drop (if x = CHR 0x0D \<and> take 1 xs = [CHR 0x0A] then 1 else 0) xs)
      else splitlines_from (cur @ [x]) xs)"

definition splitlines :: "string \<Rightarrow> string list" where
  "splitlines s = splitlines_from [] s"

text \<open>\<^verbatim>\<open>str.strip()\<close> and \<^verbatim>\<open>sep.join(lines)\<close>.\<close>

definition strip :: "string \<Rightarrow> string" where
  "strip s = rev (dropWhile is_space (rev (dropWhile is_space s)))"

fun join :: "string \<Rightarrow> string list \<Rightarrow> string" where
  "join sep [] = []"
| "join sep [l] = l"
| "join sep (l # ls) = l @ sep @ join sep ls"

text \<open>
  \<^verbatim>\<open>_normalize_whitespace\<close>: tabs become spaces, runs of two or more spaces become one space,
  every line is stripped, and the lines that are then empty are dropped.
\<close>

definition normalize_whitespace :: "string \<Rightarrow> string" where
  "normalize_whitespace code =
     (let code1 = map (\<lambda>c. if c = CHR 0x09 then CHR '' '' else c) code;
          code2 = re_sub NOFLAGS (Rep True 2 None (Lit CHR '' '')) '' '' code1;
          lines = map strip (filter (\<lambda>line. strip line \<noteq> []) (splitlines code2))
      in join [CHR 0x0A] lines)"

text \<open>
  \<^verbatim>\<open>_normalize_variables\<close>. The declaration pattern is compiled with \<^verbatim>\<open>re.IGNORECASE\<close>; it is
  kept in the three parts before, inside and after its capturing group.
\<close>

definition var_pattern_pre :: regex where
  "var_pattern_pre = seq [WordB,
     alts [str ''int'', str ''long'', str ''byte'', str ''short'', str ''float'', str ''double'',
           str ''boolean'', str ''char'', str ''String'', str ''byte[]'', str ''char[]'',
           str ''Object'', str ''var''],
     plus ws]"

definition var_pattern_grp :: regex where
  "var_pattern_grp = seq [In [Rng CHR ''a'' CHR ''z'', Ch CHR ''_''], star wd]"

definition var_pattern_post :: regex where
  "var_pattern_post = seq [star ws, In [Ch CHR ''='', Ch CHR '';'', Ch CHR '','', Ch CHR '')'']]"

definition protected :: "string list" where
  "protected = [''args'', ''main'', ''this'', ''super'', ''null'', ''true'', ''false'',
     ''System'', ''out'', ''println'', ''String'', ''Integer'', ''key'']"

text \<open>The first loop: the names of the matches, in order, without the protected and the seen.\<close>

fun collect_names :: "string list \<Rightarrow> string list \<Rightarrow> string list" where
  "collect_names var_names [] = var_names"
| "collect_names var_names (name # names) =
     collect_names
       (if name \<notin> set protected \<and> name \<notin> set var_names then var_names @ [name] else var_names)
       names"

text \<open>Decimal digits of a number, for \<^verbatim>\<open>f"VAR{idx}"\<close>.\<close>

fun digits :: "nat \<Rightarrow> string" where
  "digits n = (if n < 10 then [char_of (48 + n)] else digits (n div 10) @ [char_of (48 + n mod 10)])"

declare digits.simps [simp del]

text \<open>
  The second loop: name number \<open>idx\<close> is replaced, as a whole word, by \<^verbatim>\<open>VAR\<close>\<open>idx\<close> in the text
  that the earlier replacements left. \<^verbatim>\<open>re.escape(name)\<close> matches the name literally.
\<close>

fun rename_all :: "nat \<Rightarrow> string list \<Rightarrow> string \<Rightarrow> string" where
  "rename_all idx [] code = code"
| "rename_all idx (name # names) code =
     rename_all (Suc idx) names
       (re_sub NOFLAGS (seq [WordB, str name, WordB]) (''VAR'' @ digits idx) code)"

definition normalize_variables :: "string \<Rightarrow> string" where
  "normalize_variables code =
     (let var_names = collect_names []
            (finditer_group1 IGNORECASE var_pattern_pre var_pattern_grp var_pattern_post code)
      in rename_all 0 var_names code)"

text \<open>\<^verbatim>\<open>normalize\<close>; the three keyword arguments are the three truth values.\<close>

definition normalize :: "string \<Rightarrow> bool \<Rightarrow> bool \<Rightarrow> bool \<Rightarrow> string" where
  "normalize code rm_comments nrm_whitespace nrm_variables =
     (let code = (if rm_comments then remove_comments code else code);
          code = (if nrm_whitespace then normalize_whitespace code else code);
          code = (if nrm_variables then normalize_variables code else code)
      in code)"

section \<open>The feature extractor (\<^verbatim>\<open>preprocessing/parser.py\<close>)\<close>

definition getInstance_call :: "string \<Rightarrow> regex" where
  "getInstance_call cls = seq [str cls, str ''.getInstance'', star ws, str ''('']"

definition constructor_call :: "string \<Rightarrow> regex" where
  "constructor_call cls = seq [str cls, star ws, str ''('']"

definition API_CALL_PATTERNS :: "regex list" where
  "API_CALL_PATTERNS =
    [getInstance_call ''Cipher'',
     getInstance_call ''MessageDigest'',
     constructor_call ''SecretKeySpec'',
     getInstance_call ''KeyGenerator'',
     constructor_call ''SecureRandom'',
     getInstance_call ''KeyPairGenerator'',
     getInstance_call ''Mac'',
     getInstance_call ''Signature'',
     getInstance_call ''KeyStore'',
     constructor_call ''PBEKeySpec'',
     constructor_call ''PBEParameterSpec'',
     constructor_call ''IvParameterSpec'',
     constructor_call ''GCMParameterSpec'',
     getInstance_call ''TrustManagerFactory'',
     getInstance_call ''SSLContext'']"

definition CRYPTO_KEYWORDS :: "string list" where
  "CRYPTO_KEYWORDS =
    [''AES'', ''DES'', ''DESede'', ''3DES'', ''Blowfish'', ''RC4'', ''RC2'', ''ChaCha20'',
     ''ECB'', ''CBC'', ''CTR'', ''GCM'', ''OFB'', ''CFB'',
     ''PKCS5Padding'', ''NoPadding'', ''PKCS7Padding'',
     ''MD5'', ''SHA-1'', ''SHA1'', ''SHA-256'', ''SHA-512'', ''SHA256'', ''SHA512'',
     ''RSA'', ''DSA'', ''ECDSA'', ''ECDH'',
     ''PBKDF2'', ''PBEWith'', ''HmacSHA'',
     ''SecureRandom'', ''java.util.Random'',
     ''TLS'', ''SSL'', ''TLSv1'', ''TLSv1.2'', ''TLSv1.3'']"

definition byte_array_literal :: regex where
  "byte_array_literal = seq [str ''new'', plus ws, str ''byte'', star ws, str ''['', star ws,
     str '']'', star ws, str ''{'', plus (NotIn [Ch CHR ''}'']), str ''}'']"

definition string_getBytes :: regex where
  "string_getBytes = seq [Lit dq,
     Rep True 8 None (In [Rng CHR ''A'' CHR ''Z'', Rng CHR ''a'' CHR ''z'', Rng CHR ''0'' CHR ''9'',
                          Ch CHR ''/'', Ch CHR ''+'', Ch CHR ''='']),
     Lit dq, str ''.getBytes'']"

definition hex_string :: regex where
  "hex_string = seq [Lit dq,
     Rep True 16 None (In [Rng CHR ''0'' CHR ''9'', Rng CHR ''a'' CHR ''f'', Rng CHR ''A'' CHR ''F'']),
     Lit dq]"

definition HARDCODED_PATTERNS :: "regex list" where
  "HARDCODED_PATTERNS = [byte_array_literal, string_getBytes, hex_string]"

text \<open>\<^verbatim>\<open>_extract_api_calls\<close>: the matches of every pattern, pattern after pattern.\<close>

definition extract_api_calls :: "string \<Rightarrow> string list" where
  "extract_api_calls code = concat (map (\<lambda>pattern. re_findall NOFLAGS pattern code) API_CALL_PATTERNS)"

text \<open>
  \<^verbatim>\<open>str.upper()\<close> maps character by character; three characters below 256 leave the range or
  become two characters, so the upper-cased text is a list of code points.
\<close>

definition upper_char :: "char \<Rightarrow> nat list" where
  "upper_char c =
     (if (97 \<le> cp c \<and> cp c \<le> 122) \<or> (224 \<le> cp c \<and> cp c \<le> 246) \<or> (248 \<le> cp c \<and> cp c \<le> 254)
      then [cp c - 32]
      else if cp c = 223 then [83, 83]
      else if cp c = 181 then [924]
      else if cp c = 255 then [376]
      else [cp c])"

definition upper :: "string \<Rightarrow> nat list" where
  "upper s = concat (map upper_char s)"

text \<open>\<^verbatim>\<open>_extract_crypto_keywords\<close>: \<^verbatim>\<open>kw.upper() in code_upper\<close> is a substring test.\<close>

definition extract_crypto_keywords :: "string \<Rightarrow> string list" where
  "extract_crypto_keywords code =
     (let code_upper = upper code
      in filter (\<lambda>kw. sublist (upper kw) code_upper) CRYPTO_KEYWORDS)"

definition import_line :: regex where
  "import_line = seq [LineStart, star ws, str ''import'', plus ws]"

definition type_declaration :: regex where
  "type_declaration = seq [WordB, alts [str ''class'', str ''interface'', str ''enum''],
     plus ws, plus wd]"

definition method_signature :: regex where
  "method_signature = seq
     [plus (alts [str ''public'', str ''private'', str ''protected'', str ''static'', ws]),
      plus (In [Word, Ch CHR ''<'', Ch CHR ''>'', Ch CHR ''['', Ch CHR '']'']),
      plus ws, plus wd, star ws, str ''('']"

definition extract_structural_tokens :: "string \<Rightarrow> (string \<times> nat) list" where
  "extract_structural_tokens code =
     (let import_count = length (re_findall MULTILINE import_line code);
          class_count = length (re_findall NOFLAGS type_declaration code);
          method_count = length (re_findall NOFLAGS method_signature code)
      in [(''import_count'', import_count),
          (''class_count'', class_count),
          (''method_count'', method_count)])"

definition extract_hardcoded_secrets :: "string \<Rightarrow> string list" where
  "extract_hardcoded_secrets code =
     concat (map (\<lambda>pattern. re_findall NOFLAGS pattern code) HARDCODED_PATTERNS)"

definition extract_features :: "string \<Rightarrow> (string \<times> pyval) list" where
  "extract_features code =
     (let api_calls = extract_api_calls code;
          crypto_kw = extract_crypto_keywords code;
          structural = extract_structural_tokens code;
          hardcoded = extract_hardcoded_secrets code
      in [(''api_calls'', StrList api_calls),
          (''crypto_keywords'', StrList crypto_kw),
          (''structural_tokens'', Counts structural),
          (''hardcoded_secrets'', StrList hardcoded)])"

section \<open>Notions used in the proofs\<close>

text \<open>\<open>ends p q m\<close>: from position \<open>p\<close> the text \<open>m\<close> is read and position \<open>q\<close> is reached.\<close>

definition ends :: "pos \<Rightarrow> pos \<Rightarrow> string \<Rightarrow> bool" where
  "ends p q m \<longleftrightarrow> snd p = m @ snd q \<and> fst q = (if m = [] then fst p else Some (last m))"

section \<open>The two classifiers agree\<close>

lemma predict_loop_insecure:
  "(predict_loop rules S = ''insecure'') = list_ex (\<lambda>(n, fl, r). search fl r S) rules"
  by (induction rules S rule: predict_loop.induct) auto

lemma predict_loop_secure:
  "(predict_loop rules S = ''secure'') = (\<not> list_ex (\<lambda>(n, fl, r). search fl r S) rules)"
  by (induction rules S rule: predict_loop.induct) auto

lemma triggered_loop_filter:
  "triggered_loop rules S acc = acc @ map fst (filter (\<lambda>(n, fl, r). search fl r S) rules)"
  by (induction rules S acc rule: triggered_loop.induct) auto

lemma filter_empty_list_ex: "(filter P xs = []) = (\<not> list_ex P xs)"
  by (induction xs) auto

lemma length_RULES: "length RULES = 10"
  by (simp add: RULES_def)

text \<open>
  C1. For every snippet \<open>S\<close>, \<open>predict_detailed S\<close> holds the list \<open>ts\<close> of the names of the
  registered rules that match \<open>S\<close>, in the order of the table; \<open>predict S\<close> is \<open>insecure\<close>
  exactly when \<open>ts\<close> is not empty, which is exactly when one of the ten rules matches \<open>S\<close>, and
  \<open>secure\<close> exactly when \<open>ts\<close> is empty; and the label of \<open>predict_detailed S\<close> is \<open>predict S\<close>.
\<close>

theorem predict_detailed_agree:
  "\<exists>ts. map_of (predict_detailed S) ''triggered_rules'' = Some (StrList ts)
     \<and> ts = map fst (filter (\<lambda>(n, fl, r). search fl r S) RULES)
     \<and> (predict S = ''insecure'') = (ts \<noteq> [])
     \<and> (predict S = ''insecure'') = list_ex (\<lambda>(n, fl, r). search fl r S) RULES
     \<and> (predict S = ''secure'') = (ts = [])
     \<and> map_of (predict_detailed S) ''label'' = Some (Str (predict S))
     \<and> length RULES = 10"
proof -
  let ?ts = "map fst (filter (\<lambda>(n, fl, r). search fl r S) RULES)"
  have t: "triggered_loop RULES S [] = ?ts"
    by (simp add: triggered_loop_filter)
  have e: "(?ts = []) = (\<not> list_ex (\<lambda>(n, fl, r). search fl r S) RULES)"
    by (simp add: filter_empty_list_ex)
  have i: "(predict S = ''insecure'') = list_ex (\<lambda>(n, fl, r). search fl r S) RULES"
    by (simp add: predict_def predict_loop_insecure)
  have s: "(predict S = ''secure'') = (\<not> list_ex (\<lambda>(n, fl, r). search fl r S) RULES)"
    by (simp add: predict_def predict_loop_secure)
  have l: "map_of (predict_detailed S) ''label'' = Some (Str (predict S))"
  proof (cases "list_ex (\<lambda>(n, fl, r). search fl r S) RULES")
    case True
    with i e show ?thesis by (simp add: predict_detailed_def t)
  next
    case False
    with s e show ?thesis by (simp add: predict_detailed_def t)
  qed
  have m: "map_of (predict_detailed S) ''triggered_rules'' = Some (StrList ?ts)"
    by (simp add: predict_detailed_def t)
  from m i s e l length_RULES show ?thesis by blast
qed

lemma predict_new_Random: "predict ''new Random()'' = ''insecure''"
  by code_simp

theorem predict_detailed_agree_witness:
  "predict ''new Random()'' = ''insecure''
   \<and> (\<exists>ts. map_of (predict_detailed ''new Random()'') ''triggered_rules'' = Some (StrList ts)
          \<and> ts \<noteq> [])"
  using predict_detailed_agree [of "''new Random()''"] predict_new_Random by auto

section \<open>Facts about the matcher and the walk\<close>

lemma ends_refl: "ends p p []"
  by (simp add: ends_def)

lemma ends_trans: "ends p q m \<Longrightarrow> ends q r n \<Longrightarrow> ends p r (m @ n)"
  by (auto simp: ends_def)

lemma ends_length: "ends p q m \<Longrightarrow> length (snd p) = length m + length (snd q)"
  by (auto simp: ends_def)

lemma step_ends: "q \<in> set (step P p) \<Longrightarrow> \<exists>x. P x \<and> ends p q [x]"
  by (cases "(P, p)" rule: step.cases) (auto simp: ends_def split: if_splits)

lemma rep_ends:
  "(\<And>p q. q \<in> set (f p) \<Longrightarrow> \<exists>m. ends p q m) \<Longrightarrow> q \<in> set (rep f greedy lo hi p)
    \<Longrightarrow> \<exists>m. ends p q m"
proof (induction f greedy lo hi p arbitrary: q rule: rep.induct)
  case (1 f greedy lo hi p)
  from "1.prems"(2) consider (stop) "q = p"
    | (more) x where "x \<in> set (f p)" "q \<in> set (rep f greedy (lo - 1) (dec hi) x)"
        "hi \<noteq> Some 0" "0 < lo" "length (snd x) \<le> length (snd p)"
    | (opt) x where "x \<in> set (f p)" "q \<in> set (rep f greedy 0 (dec hi) x)"
        "hi \<noteq> Some 0" "lo = 0" "length (snd x) < length (snd p)"
    by (subst (asm) rep.simps) (auto split: if_splits)
  then show ?case
  proof cases
    case stop
    then show ?thesis using ends_refl by blast
  next
    case more
    from more(1) "1.prems"(1) obtain m where m: "ends p x m" by blast
    from more have "\<exists>n. ends x q n"
      using "1.IH"(1) [of x q] "1.prems"(1) by simp
    with m show ?thesis using ends_trans by blast
  next
    case opt
    from opt(1) "1.prems"(1) obtain m where m: "ends p x m" by blast
    have "\<exists>n. ends x q n"
    proof (cases greedy)
      case True
      with opt show ?thesis using "1.IH"(2) [of x q] "1.prems"(1) by simp
    next
      case False
      with opt show ?thesis using "1.IH"(3) [of x q] "1.prems"(1) by simp
    qed
    with m show ?thesis using ends_trans by blast
  qed
qed

lemma pm_ends: "q \<in> set (pm fl r p) \<Longrightarrow> \<exists>m. ends p q m"
proof (induction r arbitrary: p q)
  case (Cat r1 r2)
  then obtain x where "x \<in> set (pm fl r1 p)" "q \<in> set (pm fl r2 x)" by auto
  with Cat.IH show ?case using ends_trans by blast
next
  case (Rep greedy lo hi r)
  then show ?case using rep_ends [of "pm fl r" q greedy lo hi p] by auto
qed (auto dest: step_ends intro: ends_refl split: if_splits)

lemma pm_length: "q \<in> set (pm fl r p) \<Longrightarrow> length (snd q) \<le> length (snd p)"
  using pm_ends ends_length by fastforce

lemma search_fromI:
  "pm fl r (if ys = [] then pv else Some (last ys), zs) \<noteq> [] \<Longrightarrow> search_from fl r pv (ys @ zs)"
proof (induction ys arbitrary: pv)
  case Nil
  then show ?case by (cases zs) auto
next
  case (Cons y ys)
  then have "search_from fl r (Some y) (ys @ zs)" by (cases "ys = []") auto
  then show ?case by simp
qed

lemma search_fromD:
  "search_from fl r pv xs \<Longrightarrow> \<exists>ys zs pv'. xs = ys @ zs \<and> pm fl r (pv', zs) \<noteq> []"
proof (induction xs arbitrary: pv)
  case Nil
  then show ?case by auto
next
  case (Cons x xs)
  show ?case
  proof (cases "pm fl r (pv, x # xs) = []")
    case True
    with Cons.prems have "search_from fl r (Some x) xs" by simp
    from Cons.IH [OF this] obtain ys zs pv' where "xs = ys @ zs" "pm fl r (pv', zs) \<noteq> []"
      by blast
    then have "x # xs = (x # ys) @ zs \<and> pm fl r (pv', zs) \<noteq> []" by simp
    then show ?thesis by blast
  next
    case False
    then have "x # xs = [] @ (x # xs) \<and> pm fl r (pv, x # xs) \<noteq> []" by simp
    then show ?thesis by blast
  qed
qed

lemma find_all: "find (\<lambda>x. True) ys = (case ys of [] \<Rightarrow> None | y # _ \<Rightarrow> Some y)"
  by (cases ys) auto

lemma scan_no_match:
  "\<not> search_from fl r pv xs \<Longrightarrow> scan (re fl r) False (pv, xs) = map Skip xs"
proof (induction xs arbitrary: pv)
  case Nil
  then show ?case by (simp add: scan.simps [of _ False pv "[]"] re_def)
next
  case (Cons x xs)
  then show ?case by (simp add: scan.simps [of _ False pv "x # xs"] re_def)
qed

lemma scan_match:
  "search_from fl r pv xs \<Longrightarrow> hits (scan (re fl r) False (pv, xs)) \<noteq> []"
proof (induction xs arbitrary: pv)
  case Nil
  then show ?case
    by (cases "pm fl r (pv, [])") (auto simp: scan.simps [of _ False pv "[]"] re_def)
next
  case (Cons x xs)
  show ?case
  proof (cases "pm fl r (pv, x # xs)")
    case Nil
    with Cons show ?thesis by (simp add: scan.simps [of _ False pv "x # xs"] re_def)
  next
    case (Cons q qs)
    then show ?thesis by (simp add: scan.simps [of _ False pv "x # xs"] re_def)
  qed
qed

lemma concat_map_Skip: "concat (map (sub_piece repl) (map Skip xs)) = xs"
  by (induction xs) auto

lemma hits_map_Skip: "hits (map Skip xs) = []"
  by (induction xs) auto

lemma re_sub_no_match: "\<not> search fl r s \<Longrightarrow> re_sub fl r repl s = s"
  using concat_map_Skip [of repl s] by (simp add: search_def re_sub_def scan_no_match)

lemma re_findall_empty: "(re_findall fl r s = []) = (\<not> search fl r s)"
  using scan_match [of fl r None s] scan_no_match [of fl r None s]
  by (auto simp: search_def re_findall_def hits_map_Skip)

lemma seq_Cons: "seq (r # rs) = Cat r (seq rs)"
  by (simp add: seq_def)

lemma str_Cons: "str (c # s) = Cat (Lit c) (str s)"
  by (simp add: str_def seq_def)

lemma str_Nil: "str [] = Eps"
  by (simp add: str_def seq_def)

lemma pm_str_ends:
  "\<not> ignorecase fl \<Longrightarrow> q \<in> set (pm fl (str s) p) \<Longrightarrow> ends p q s"
proof (induction s arbitrary: p)
  case Nil
  then show ?case by (simp add: str_Nil ends_refl)
next
  case (Cons c s)
  from Cons.prems obtain x where x: "x \<in> set (step (lit_ok fl c) p)" "q \<in> set (pm fl (str s) x)"
    by (auto simp: str_Cons)
  from x(1) Cons.prems(1) have "ends p x [c]"
    by (auto dest!: step_ends simp: lit_ok_def)
  moreover from x(2) Cons have "ends x q s" by blast
  ultimately show ?case using ends_trans by fastforce
qed

section \<open>Keyword extraction is a substring test\<close>

lemma upper_append: "upper (a @ b) = upper a @ upper b"
  by (simp add: upper_def)

lemma sublist_upper: "sublist xs ys \<Longrightarrow> sublist (upper xs) (upper ys)"
proof -
  assume "sublist xs ys"
  then obtain ps ss where "ys = ps @ xs @ ss"
    by (auto simp: sublist_def)
  then have "upper ys = upper ps @ upper xs @ upper ss"
    by (simp add: upper_append)
  then show ?thesis
    by (metis sublist_appendI)
qed

lemma upper_DES_in_DESede: "sublist (upper ''DES'') (upper ''DESede'')"
  by code_simp

lemma distinct_CRYPTO_KEYWORDS: "distinct CRYPTO_KEYWORDS"
  by code_simp

lemma DES_is_keyword: "''DES'' \<in> set CRYPTO_KEYWORDS"
  by (simp add: CRYPTO_KEYWORDS_def)

lemma keywords_of_description: "extract_crypto_keywords ''description'' = [''DES'']"
  by code_simp

lemma DESede_call: "sublist ''DESede'' ''Cipher.getInstance(\"DESede\")''"
  by code_simp

text \<open>
  C10. For every snippet \<open>S\<close>, the field \<^verbatim>\<open>crypto_keywords\<close> of \<open>extract_features S\<close> is the list
  of the vocabulary entries \<open>k\<close> whose upper-cased form is a substring of the upper-cased \<open>S\<close>, in
  the order of the vocabulary: an entry is reported exactly when that substring test holds,
  whole word or not. Hence no entry is reported twice, a snippet containing \<^verbatim>\<open>DESede\<close> also
  reports \<^verbatim>\<open>DES\<close>, and the word \<^verbatim>\<open>description\<close>, which has no cryptographic content, reports
  \<^verbatim>\<open>DES\<close>.
\<close>

theorem crypto_keywords_substring:
  "\<exists>kws. map_of (extract_features S) ''crypto_keywords'' = Some (StrList kws)
     \<and> kws = filter (\<lambda>k. sublist (upper k) (upper S)) CRYPTO_KEYWORDS
     \<and> (\<forall>k \<in> set CRYPTO_KEYWORDS. (k \<in> set kws) = sublist (upper k) (upper S))
     \<and> distinct kws
     \<and> (sublist ''DESede'' S \<longrightarrow> ''DES'' \<in> set kws)
     \<and> map_of (extract_features ''description'') ''crypto_keywords'' = Some (StrList [''DES''])"
proof -
  let ?kws = "filter (\<lambda>k. sublist (upper k) (upper S)) CRYPTO_KEYWORDS"
  have a: "map_of (extract_features S) ''crypto_keywords'' = Some (StrList ?kws)"
    by (simp add: extract_features_def extract_crypto_keywords_def)
  have b: "\<forall>k \<in> set CRYPTO_KEYWORDS. (k \<in> set ?kws) = sublist (upper k) (upper S)"
    by simp
  have c: "distinct ?kws"
    using distinct_CRYPTO_KEYWORDS by simp
  have d: "sublist ''DESede'' S \<longrightarrow> ''DES'' \<in> set ?kws"
  proof
    assume "sublist ''DESede'' S"
    then have "sublist (upper ''DESede'') (upper S)"
      by (rule sublist_upper)
    with upper_DES_in_DESede have "sublist (upper ''DES'') (upper S)"
      by (rule sublist_order.order_trans)
    with DES_is_keyword show "''DES'' \<in> set ?kws" by simp
  qed
  have e: "map_of (extract_features ''description'') ''crypto_keywords'' = Some (StrList [''DES''])"
    by (simp add: extract_features_def keywords_of_description)
  from a b c d e show ?thesis by blast
qed

theorem crypto_keywords_substring_witness:
  "sublist ''DESede'' ''Cipher.getInstance(\"DESede\")''
   \<and> (\<exists>kws. map_of (extract_features ''Cipher.getInstance(\"DESede\")'') ''crypto_keywords''
            = Some (StrList kws)
          \<and> ''DES'' \<in> set kws \<and> ''DES'' \<in> set CRYPTO_KEYWORDS)"
  using crypto_keywords_substring [of "''Cipher.getInstance(\"DESede\")''"] DESede_call DES_is_keyword
  by blast

section \<open>The iteration-count rule and the key-length argument\<close>

text \<open>
  C3. The rule \<^verbatim>\<open>low_pbe_iterations\<close> is meant to flag an iteration count below 1000. The
  pattern accepts a number of one to three digits after any comma of the argument list, so
  the call below, with 65536 iterations and a key length of 256, triggers it: it is the only
  rule that matches, and the snippet is classified \<open>insecure\<close>.
\<close>

theorem low_pbe_iterations_flags_key_length:
  "search NOFLAGS low_pbe_iterations ''new PBEKeySpec(password, salt, 65536, 256)''
   \<and> predict_detailed ''new PBEKeySpec(password, salt, 65536, 256)''
       = [(''label'', Str ''insecure''), (''triggered_rules'', StrList [''low_pbe_iterations''])]"
  by code_simp

section \<open>Renaming reaches method and class names\<close>

text \<open>
  C4. Identifier anonymization replaces every whole-word occurrence of a declared name. A
  method or a class with the name of a declared variable is renamed with it: the method
  \<^verbatim>\<open>size\<close> in the first snippet and the class \<^verbatim>\<open>foo\<close> in the second.
\<close>

theorem normalize_variables_renames_method_and_class:
  "normalize ''int size = list.size();'' False False True = ''int VAR0 = list.VAR0();''
   \<and> normalize ''class foo { int foo = 1; }'' False False True = ''class VAR0 { int VAR0 = 1; }''"
  by code_simp

section \<open>A block comment that is never closed\<close>

lemma pm_nonempty_obtain: "pm fl r p \<noteq> [] \<Longrightarrow> \<exists>q. q \<in> set (pm fl r p)"
  by (cases "pm fl r p") auto

lemma sublist_of_split: "S = ys @ m @ xs @ t \<Longrightarrow> sublist xs S"
proof -
  assume "S = ys @ m @ xs @ t"
  then have "S = (ys @ m) @ xs @ t" by (simp only: append_assoc)
  then show ?thesis by (simp only: sublist_appendI)
qed

lemma block_comment_ends:
  assumes "q \<in> set (pm DOTALL block_comment p)"
  shows "\<exists>m. snd p = m @ ''*/'' @ snd q"
proof -
  from assms obtain x y where x: "x \<in> set (pm DOTALL (str ''/*'') p)"
    and y: "y \<in> set (pm DOTALL (lazy_star Dot) x)"
    and z: "q \<in> set (pm DOTALL (str ''*/'') y)"
    by (auto simp: block_comment_def seq_Cons seq_def)
  from x obtain m1 where m1: "snd p = m1 @ snd x"
    using pm_ends by (fastforce simp: ends_def)
  from y obtain m2 where m2: "snd x = m2 @ snd y"
    using pm_ends by (fastforce simp: ends_def)
  from z have "ends y q ''*/''"
    by (intro pm_str_ends) (simp_all add: DOTALL_def)
  then have "snd y = ''*/'' @ snd q" by (simp add: ends_def)
  with m1 m2 have "snd p = (m1 @ m2) @ ''*/'' @ snd q" by simp
  then show ?thesis by blast
qed

lemma no_closer_no_block_comment:
  assumes "\<not> sublist ''*/'' S"
  shows "\<not> search DOTALL block_comment S"
proof
  assume "search DOTALL block_comment S"
  then have "search_from DOTALL block_comment None S" by (simp only: search_def)
  from search_fromD [OF this] obtain ys zs pv
    where S: "S = ys @ zs" and ne: "pm DOTALL block_comment (pv, zs) \<noteq> []"
    by blast
  from pm_nonempty_obtain [OF ne] obtain q where "q \<in> set (pm DOTALL block_comment (pv, zs))"
    by blast
  from block_comment_ends [OF this] obtain m where "snd (pv, zs) = m @ ''*/'' @ snd q"
    by blast
  then have "zs = m @ ''*/'' @ snd q" by (simp only: snd_conv)
  with S have "S = ys @ m @ ''*/'' @ snd q" by (simp only:)
  then have "sublist ''*/'' S" by (rule sublist_of_split)
  with assms show False by (simp only: not_False_eq_True simp_thms)
qed

lemma line_comment_starts:
  assumes "q \<in> set (pm NOFLAGS line_comment p)"
  shows "\<exists>t. snd p = ''//'' @ t"
proof -
  from assms obtain x where x: "x \<in> set (pm NOFLAGS (str ''//'') p)"
    by (auto simp: line_comment_def seq_Cons)
  then have "ends p x ''//''"
    by (intro pm_str_ends) (simp_all add: NOFLAGS_def)
  then have "snd p = ''//'' @ snd x" by (simp only: ends_def)
  then show ?thesis by blast
qed

lemma no_slashes_no_line_comment:
  assumes "\<not> sublist ''//'' S"
  shows "\<not> search NOFLAGS line_comment S"
proof
  assume "search NOFLAGS line_comment S"
  then have "search_from NOFLAGS line_comment None S" by (simp only: search_def)
  from search_fromD [OF this] obtain ys zs pv
    where S: "S = ys @ zs" and ne: "pm NOFLAGS line_comment (pv, zs) \<noteq> []"
    by blast
  from pm_nonempty_obtain [OF ne] obtain q where "q \<in> set (pm NOFLAGS line_comment (pv, zs))"
    by blast
  from line_comment_starts [OF this] obtain t where "snd (pv, zs) = ''//'' @ t"
    by blast
  then have "zs = ''//'' @ t" by (simp only: snd_conv)
  with S have "S = ys @ [] @ ''//'' @ t" by (simp only: append_Nil)
  then have "sublist ''//'' S" by (rule sublist_of_split)
  with assms show False by (simp only: not_False_eq_True simp_thms)
qed

lemma remove_comments_example: "normalize ''a /* b'' True False False = ''a /* b''"
  by code_simp

lemma example_has_opener: "sublist ''/*'' ''a /* b''"
  by code_simp

lemma example_has_no_closer: "\<not> sublist ''*/'' ''a /* b''"
  by code_simp

lemma example_has_no_slashes: "\<not> sublist ''//'' ''a /* b''"
  by code_simp

lemma example_is_not_cut: "''a /* b'' \<noteq> ''a ''"
  by simp

text \<open>
  C2 (as amended). The block-comment pattern needs the closer \<^verbatim>\<open>*/\<close>. For every snippet that
  contains an opener \<^verbatim>\<open>/*\<close> and no closer \<^verbatim>\<open>*/\<close>, the block-comment pass removes nothing: comment
  stripping returns the snippet with only its line comments removed, and when the snippet has
  no \<^verbatim>\<open>//\<close> either it is returned unchanged, the opener and the text after it included.
\<close>

theorem unterminated_block_comment_is_kept:
  assumes "sublist ''/*'' S" and "\<not> sublist ''*/'' S"
  shows "re_sub DOTALL block_comment [] S = S
     \<and> normalize S True False False = re_sub NOFLAGS line_comment [] S
     \<and> (\<not> sublist ''//'' S \<longrightarrow> normalize S True False False = S \<and> sublist ''/*'' (normalize S True False False))"
proof -
  have b: "re_sub DOTALL block_comment [] S = S"
    by (rule re_sub_no_match [OF no_closer_no_block_comment [OF assms(2)]])
  have n: "normalize S True False False = re_sub NOFLAGS line_comment [] S"
    by (simp only: normalize_def remove_comments_def b Let_def if_True if_False)
  have u: "\<not> sublist ''//'' S \<longrightarrow> normalize S True False False = S \<and> sublist ''/*'' (normalize S True False False)"
  proof
    assume "\<not> sublist ''//'' S"
    then have "re_sub NOFLAGS line_comment [] S = S"
      by (rule re_sub_no_match [OF no_slashes_no_line_comment])
    with n have "normalize S True False False = S"
      by (rule trans)
    with assms(1) show "normalize S True False False = S \<and> sublist ''/*'' (normalize S True False False)"
      by (simp only: simp_thms)
  qed
  from b n u show ?thesis by (intro conjI)
qed

theorem unterminated_block_comment_is_kept_witness:
  "sublist ''/*'' ''a /* b'' \<and> \<not> sublist ''*/'' ''a /* b'' \<and> \<not> sublist ''//'' ''a /* b''
   \<and> normalize ''a /* b'' True False False = ''a /* b''"
proof -
  have "normalize ''a /* b'' True False False = ''a /* b''"
    by (rule unterminated_block_comment_is_kept [OF example_has_opener example_has_no_closer,
          THEN conjunct2, THEN conjunct2, THEN mp, OF example_has_no_slashes, THEN conjunct1])
  then show ?thesis
    by (intro conjI example_has_opener example_has_no_closer example_has_no_slashes)
qed

theorem unterminated_block_comment_not_removed:
  "sublist ''/*'' ''a /* b'' \<and> \<not> sublist ''*/'' ''a /* b''
   \<and> normalize ''a /* b'' True False False = ''a /* b''
   \<and> normalize ''a /* b'' True False False \<noteq> ''a ''"
proof -
  have "normalize ''a /* b'' True False False \<noteq> ''a ''"
    by (subst remove_comments_example) (rule example_is_not_cut)
  then show ?thesis
    by (intro conjI example_has_opener example_has_no_closer remove_comments_example)
qed

end
